theory Spec2Isabelle
  imports Main "HOL-Library.Char_ord" "HOL-Library.List_Lexorder"
begin

section \<open>Strings of the sketch\<close>

text \<open>
  The sketch works on JavaScript strings. A string is modelled as a \<^typ>\<open>string\<close>, each
  \<^typ>\<open>char\<close> standing for the code unit of the same number (0 to 255); the wire format of
  the device is ASCII. \<open>length\<close> counts code units, as \<open>.length\<close> does.

  The relational operators of JavaScript on two strings compare them code unit by code
  unit, a proper prefix being smaller. This is the order of \<open>HOL-Library.List_Lexorder\<close>
  over the order of \<open>HOL-Library.Char_ord\<close> (by \<^const>\<open>of_char\<close>), so \<open>k >= "0"\<close> is
  written \<^prop>\<open>''0'' \<le> k\<close>.
\<close>

definition isWhiteSpace :: "char \<Rightarrow> bool" where
  \<comment> \<open>the code units below 256 that \<open>String.prototype.trim\<close> strips: TAB, LF, VT, FF, CR,
      SPACE and NBSP\<close>
  "isWhiteSpace c \<longleftrightarrow>
     c = CHR 0x09 \<or> c = CHR 0x0A \<or> c = CHR 0x0B \<or> c = CHR 0x0C \<or> c = CHR 0x0D \<or>
     c = CHR 0x20 \<or> c = CHR 0xA0"

definition trim :: "string \<Rightarrow> string" where
  "trim s = rev (dropWhile isWhiteSpace (rev (dropWhile isWhiteSpace s)))"

definition startsWith :: "string \<Rightarrow> string \<Rightarrow> bool" where
  "startsWith s p \<longleftrightarrow> take (length p) s = p"

definition upperChar :: "char \<Rightarrow> char" where
  \<comment> \<open>\<open>a\<close> to \<open>z\<close> go to \<open>A\<close> to \<open>Z\<close>; every other code unit stays\<close>
  "upperChar c =
     (case map_of (zip ''abcdefghijklmnopqrstuvwxyz'' ''ABCDEFGHIJKLMNOPQRSTUVWXYZ'') c of
        Some u \<Rightarrow> u
      | None \<Rightarrow> c)"

definition toUpperCase :: "string \<Rightarrow> string" where
  "toUpperCase s = map upperChar s"

text \<open>
  \<^const>\<open>toUpperCase\<close> is \<open>String.prototype.toUpperCase\<close> on ASCII. On the code units 128
  to 255 JavaScript changes more letters, but none of them into an ASCII letter other than
  \<open>S\<close>, so that the three comparisons of \<open>handleLine\<close> below come out the same.
\<close>

section \<open>The shared state\<close>

text \<open>
  \<^verbatim>\<open>let lockState = "LOCKED"; let entered = "";\<close>
  \<open>lockState\<close> is only ever assigned the three literals \<open>"LOCKED"\<close>, \<open>"UNLOCKED"\<close> and
  \<open>"WRONG"\<close>.
\<close>

datatype lock_state = LOCKED | UNLOCKED | WRONG

record app_state =
  lockState :: lock_state
  entered :: string

definition initial :: app_state where
  "initial = \<lparr>lockState = LOCKED, entered = ''''\<rparr>"

section \<open>The line interpreter\<close>

text \<open>
  \<^verbatim>\<open>
  function handleLine(line) {
    if (line.startsWith("KEY:")) {
      const k = line.slice(4).trim();
      if (k >= "0" && k <= "9" && entered.length < 4) entered += k;
      else if (k === "*" && entered.length) entered = entered.slice(0, -1);
    }
    else if (line.startsWith("STATE:")) {
      const s = line.slice(6).trim().toUpperCase();
      if (s === "UNLOCKED") { lockState = "UNLOCKED"; entered = ""; }
      else if (s === "WRONG") { lockState = "WRONG"; entered = ""; }
      else if (s === "IDLE") { lockState = "LOCKED"; }
    }
  }
  \<close>
  \<open>line.slice(n)\<close> is \<^term>\<open>drop n line\<close>, and \<open>entered.slice(0, -1)\<close> is
  \<^term>\<open>butlast (entered st)\<close>.
\<close>

definition handleLine :: "string \<Rightarrow> app_state \<Rightarrow> app_state" where
  "handleLine line st =
     (if startsWith line ''KEY:'' then
        (let k = trim (drop 4 line) in
         if ''0'' \<le> k \<and> k \<le> ''9'' \<and> length (entered st) < 4
           then st\<lparr>entered := entered st @ k\<rparr>
         else if k = ''*'' \<and> entered st \<noteq> []
           then st\<lparr>entered := butlast (entered st)\<rparr>
         else st)
      else if startsWith line ''STATE:'' then
        (let s = toUpperCase (trim (drop 6 line)) in
         if s = ''UNLOCKED'' then st\<lparr>lockState := UNLOCKED, entered := ''''\<rparr>
         else if s = ''WRONG'' then st\<lparr>lockState := WRONG, entered := ''''\<rparr>
         else if s = ''IDLE'' then st\<lparr>lockState := LOCKED\<rparr>
         else st)
      else st)"

section \<open>The read loop\<close>

text \<open>
  \<^verbatim>\<open>
  let buf = "";
  while (true) {
    const { value, done } = await reader.read();
    if (done) break;
    if (!value) continue;
    buf += value;
    let nl;
    while ((nl = buf.indexOf("\n")) >= 0) {
      const line = buf.slice(0, nl).trim();
      buf = buf.slice(nl + 1);
      if (line) handleLine(line);
    }
  }
  \<close>
  The stream is the list of the chunks it delivers before it signals \<open>done\<close>. The call of
  \<open>handleLine\<close> is the parameter \<open>h\<close>, a function on a state of any type: the sketch is
  \<open>readLoop handleLine\<close>, and a handler that records its argument gives the sequence of
  the calls.
\<close>

definition newline :: char where
  "newline = CHR 0x0A"

fun indexOf :: "string \<Rightarrow> char \<Rightarrow> int" where
  \<comment> \<open>\<open>s.indexOf(c)\<close> for a search string of one code unit: the first position, else -1\<close>
  "indexOf [] c = - 1"
| "indexOf (x # xs) c =
     (if x = c then 0 else (let i = indexOf xs c in if i < 0 then - 1 else i + 1))"

lemma indexOf_less_length: "indexOf s c < int (length s)"
  by (induction s) (auto simp: Let_def)

function drain :: "(string \<Rightarrow> 's \<Rightarrow> 's) \<Rightarrow> string \<Rightarrow> 's \<Rightarrow> string \<times> 's" where
  \<comment> \<open>the inner \<open>while\<close>\<close>
  "drain h buf st =
     (let nl = indexOf buf newline in
      if nl \<ge> 0 then
        (let line = trim (take (nat nl) buf);
             buf' = drop (nat (nl + 1)) buf
         in drain h buf' (if line \<noteq> [] then h line st else st))
      else (buf, st))"
  by pat_completeness auto
termination
proof (relation "measure (\<lambda>(h, buf, st). length buf)")
  show "wf (measure (\<lambda>(h, buf, st). length buf))"
    by simp
next
  fix h :: "string \<Rightarrow> 's \<Rightarrow> 's" and buf :: string and st :: 's and nl line buf'
  assume nl: "nl = indexOf buf newline" and pos: "0 \<le> nl"
    and buf': "buf' = drop (nat (nl + 1)) buf"
  have "nl < int (length buf)"
    using indexOf_less_length [of buf newline] nl by simp
  with pos buf' have "length buf' < length buf"
    by simp
  then show "((h, buf', if line \<noteq> [] then h line st else st), h, buf, st)
      \<in> measure (\<lambda>(h, buf, st). length buf)"
    by simp
qed

declare drain.simps [simp del]

fun readLoop :: "(string \<Rightarrow> 's \<Rightarrow> 's) \<Rightarrow> string list \<Rightarrow> string \<Rightarrow> 's \<Rightarrow> string \<times> 's" where
  \<comment> \<open>the outer \<open>while\<close>: the list is empty when \<open>done\<close>; an empty chunk is skipped\<close>
  "readLoop h [] buf st = (buf, st)"
| "readLoop h (v # vs) buf st =
     (if v = [] then readLoop h vs buf st
      else (case drain h (buf @ v) st of (buf', st') \<Rightarrow> readLoop h vs buf' st'))"

section \<open>What the specification says of the read loop\<close>

text \<open>
  These three definitions follow the words of the specification, not the code: the text
  received is cut at every newline; each segment that precedes a newline is trimmed and,
  when something is left of it, forwarded; what follows the last newline stays behind.
\<close>

fun segments :: "string \<Rightarrow> string list" where
  "segments [] = [[]]"
| "segments (c # cs) =
     (if c = newline then [] # segments cs
      else (c # hd (segments cs)) # tl (segments cs))"

definition forwarded_spec :: "string \<Rightarrow> string list" where
  "forwarded_spec s = filter (\<lambda>l. l \<noteq> []) (map trim (butlast (segments s)))"

definition buffered_spec :: "string \<Rightarrow> string" where
  "buffered_spec s = last (segments s)"

section \<open>Decimal digits\<close>

definition decimalDigit :: "char \<Rightarrow> bool" where
  \<comment> \<open>\<open>0\<close> to \<open>9\<close>, the code units 0x30 to 0x39\<close>
  "decimalDigit c \<longleftrightarrow> CHR ''0'' \<le> c \<and> c \<le> CHR ''9''"

section \<open>Facts about the string functions\<close>

lemma trim_Nil [simp]: "trim [] = []"
  by (simp add: trim_def)

text \<open>\<^const>\<open>decimalDigit\<close> holds of the ten digits and of nothing else.\<close>

lemma decimalDigit_iff: "decimalDigit c \<longleftrightarrow> c \<in> set ''0123456789''"
proof
  assume "c \<in> set ''0123456789''"
  then show "decimalDigit c"
    by (auto simp: decimalDigit_def)
next
  assume "decimalDigit c"
  then have "48 \<le> (of_char c :: nat) \<and> (of_char c :: nat) \<le> 57"
    by (simp add: decimalDigit_def less_eq_char_def)
  then have "(of_char c :: nat) \<in> {48, 49, 50, 51, 52, 53, 54, 55, 56, 57}"
    by (simp only: insert_iff empty_iff) arith
  then have "(of_char c :: nat) \<in> of_char ` set ''0123456789''"
    by simp
  then show "c \<in> set ''0123456789''"
    by (auto simp only: image_iff of_char_eq_iff)
qed

lemma decimalDigit_not_white: "decimalDigit c \<Longrightarrow> \<not> isWhiteSpace c"
  by (auto simp: decimalDigit_def isWhiteSpace_def)

lemma trim_single: "\<not> isWhiteSpace c \<Longrightarrow> trim [c] = [c]"
  by (simp add: trim_def)

lemma decimalDigit_range: "decimalDigit c \<Longrightarrow> ''0'' \<le> [c] \<and> [c] \<le> ''9''"
  unfolding decimalDigit_def by (auto simp: less_le)

lemma range_decimalDigit: "''0'' \<le> k \<Longrightarrow> k \<le> ''9'' \<Longrightarrow> k \<noteq> [] \<and> decimalDigit (hd k)"
  by (cases k) (auto simp: decimalDigit_def)

lemma STATE_not_KEY: "startsWith line ''STATE:'' \<Longrightarrow> \<not> startsWith line ''KEY:''"
proof
  assume s: "startsWith line ''STATE:''" and k: "startsWith line ''KEY:''"
  have "take (length ''STATE:'') line = ''STATE:''"
    using s by (simp only: startsWith_def)
  moreover have "length ''STATE:'' = 6"
    by simp
  ultimately have s6: "take 6 line = ''STATE:''"
    by (simp only:)
  have "take (length ''KEY:'') line = ''KEY:''"
    using k by (simp only: startsWith_def)
  moreover have "length ''KEY:'' = 4"
    by simp
  ultimately have k4: "take 4 line = ''KEY:''"
    by (simp only:)
  have "take 4 line = take 4 (take 6 line)"
    by simp
  also have "\<dots> = ''STAT''"
    unfolding s6 by simp
  finally show False
    using k4 by simp
qed

lemma handleLine_KEY:
  "startsWith line ''KEY:'' \<Longrightarrow>
   handleLine line st =
     (if ''0'' \<le> trim (drop 4 line) \<and> trim (drop 4 line) \<le> ''9'' \<and> length (entered st) < 4
        then st\<lparr>entered := entered st @ trim (drop 4 line)\<rparr>
      else if trim (drop 4 line) = ''*'' \<and> entered st \<noteq> []
        then st\<lparr>entered := butlast (entered st)\<rparr>
      else st)"
  by (simp only: handleLine_def Let_def if_True)

lemma handleLine_STATE:
  "startsWith line ''STATE:'' \<Longrightarrow>
   handleLine line st =
     (if toUpperCase (trim (drop 6 line)) = ''UNLOCKED''
        then st\<lparr>lockState := UNLOCKED, entered := ''''\<rparr>
      else if toUpperCase (trim (drop 6 line)) = ''WRONG''
        then st\<lparr>lockState := WRONG, entered := ''''\<rparr>
      else if toUpperCase (trim (drop 6 line)) = ''IDLE''
        then st\<lparr>lockState := LOCKED\<rparr>
      else st)"
  using STATE_not_KEY [of line] by (simp only: handleLine_def Let_def if_True if_False)

lemma handleLine_other:
  "\<not> startsWith line ''KEY:'' \<Longrightarrow> \<not> startsWith line ''STATE:'' \<Longrightarrow> handleLine line st = st"
  by (simp only: handleLine_def if_False)

lemma startsWith_STATE: "startsWith (''STATE:'' @ p) ''STATE:''"
  by (simp add: startsWith_def)

lemma handleLine_KEY_digit:
  assumes "decimalDigit d" and line: "line = ''KEY:'' @ [d]"
  shows "handleLine line st =
    (if length (entered st) < 4 then st\<lparr>entered := entered st @ [d]\<rparr> else st)"
proof -
  have "trim [d] = [d]"
    using assms(1) by (simp add: trim_single decimalDigit_not_white)
  then have k: "trim (drop 4 line) = [d]"
    by (simp add: line)
  have key: "startsWith line ''KEY:''"
    by (simp add: line startsWith_def)
  have "d \<noteq> CHR ''*''"
    using assms(1) by (auto simp: decimalDigit_def)
  then show ?thesis
    using decimalDigit_range [OF assms(1)]
    by (simp only: handleLine_KEY [OF key] k) simp
qed

section \<open>Key messages\<close>

text \<open>
  Claim C2. For a line \<open>KEY:d\<close> with \<open>d\<close> one decimal digit, received while fewer than
  four characters are entered, \<open>handleLine\<close> appends \<open>d\<close>: the length grows by one, the
  last character is \<open>d\<close>, the earlier characters are as before, and the lock state is
  unchanged.
\<close>

theorem key_digit_appends:
  assumes "decimalDigit d" and "length (entered st) < 4"
  shows "entered (handleLine (''KEY:'' @ [d]) st) = entered st @ [d]
    \<and> length (entered (handleLine (''KEY:'' @ [d]) st)) = length (entered st) + 1
    \<and> last (entered (handleLine (''KEY:'' @ [d]) st)) = d
    \<and> butlast (entered (handleLine (''KEY:'' @ [d]) st)) = entered st
    \<and> lockState (handleLine (''KEY:'' @ [d]) st) = lockState st"
  using assms(2) handleLine_KEY_digit [OF assms(1) refl, of st] by simp

theorem key_digit_appends_witness:
  "decimalDigit CHR ''7'' \<and> entered (handleLine ''KEY:7'' \<lparr>lockState = WRONG, entered = ''12''\<rparr>) = ''127''
   \<and> lockState (handleLine ''KEY:7'' \<lparr>lockState = WRONG, entered = ''12''\<rparr>) = WRONG"
  using key_digit_appends [of "CHR ''7''" "\<lparr>lockState = WRONG, entered = ''12''\<rparr>"]
  by (simp add: decimalDigit_def)

text \<open>
  Claim C3. For a line \<open>KEY:d\<close> with \<open>d\<close> one decimal digit, received while four
  characters are entered, \<open>handleLine\<close> changes nothing; and the lines \<open>KEY:1\<close> to
  \<open>KEY:5\<close>, received in this order on an empty buffer, leave \<open>1234\<close> entered.
\<close>

theorem key_digit_full_ignored:
  "(decimalDigit d \<and> length (entered st) = 4 \<longrightarrow> handleLine (''KEY:'' @ [d]) st = st)
   \<and> entered (fold handleLine [''KEY:1'', ''KEY:2'', ''KEY:3'', ''KEY:4'', ''KEY:5'']
        (st\<lparr>entered := ''''\<rparr>)) = ''1234''"
proof (intro conjI impI)
  assume a: "decimalDigit d \<and> length (entered st) = 4"
  then show "handleLine (''KEY:'' @ [d]) st = st"
    using handleLine_KEY_digit [OF _ refl, of d st] by simp
next
  show "entered (fold handleLine [''KEY:1'', ''KEY:2'', ''KEY:3'', ''KEY:4'', ''KEY:5'']
        (st\<lparr>entered := ''''\<rparr>)) = ''1234''"
    by (simp add: handleLine_def startsWith_def trim_def isWhiteSpace_def)
qed

theorem key_digit_full_ignored_witness:
  "decimalDigit CHR ''5'' \<and> length (entered \<lparr>lockState = LOCKED, entered = ''1234''\<rparr>) = 4
   \<and> handleLine ''KEY:5'' \<lparr>lockState = LOCKED, entered = ''1234''\<rparr>
       = \<lparr>lockState = LOCKED, entered = ''1234''\<rparr>"
  using key_digit_full_ignored [of "CHR ''5''" "\<lparr>lockState = LOCKED, entered = ''1234''\<rparr>"]
  by (simp add: decimalDigit_def)

text \<open>
  Claim C4. The line \<open>KEY:*\<close> removes the last entered character when there is one and
  changes nothing otherwise, the lock state staying as it is; and \<open>KEY:7\<close>, \<open>KEY:*\<close>,
  \<open>KEY:*\<close> on an empty buffer leave nothing entered.
\<close>

theorem key_star_deletes:
  "(entered st \<noteq> [] \<longrightarrow> handleLine ''KEY:*'' st = st\<lparr>entered := butlast (entered st)\<rparr>)
   \<and> (entered st = [] \<longrightarrow> handleLine ''KEY:*'' st = st)
   \<and> lockState (handleLine ''KEY:*'' st) = lockState st
   \<and> entered (fold handleLine [''KEY:7'', ''KEY:*'', ''KEY:*''] (st\<lparr>entered := ''''\<rparr>)) = ''''"
  by (simp add: handleLine_def startsWith_def trim_def isWhiteSpace_def)

theorem key_star_deletes_witness:
  "entered \<lparr>lockState = UNLOCKED, entered = ''42''\<rparr> \<noteq> []
   \<and> handleLine ''KEY:*'' \<lparr>lockState = UNLOCKED, entered = ''42''\<rparr>
       = \<lparr>lockState = UNLOCKED, entered = ''4''\<rparr>
   \<and> handleLine ''KEY:*'' \<lparr>lockState = UNLOCKED, entered = ''''\<rparr>
       = \<lparr>lockState = UNLOCKED, entered = ''''\<rparr>"
  using key_star_deletes [of "\<lparr>lockState = UNLOCKED, entered = ''42''\<rparr>"]
    key_star_deletes [of "\<lparr>lockState = UNLOCKED, entered = ''''\<rparr>"]
  by simp

section \<open>State messages\<close>

text \<open>
  Claim C5. Whatever the state, \<open>STATE:UNLOCKED\<close> sets the lock state to \<open>UNLOCKED\<close> and
  \<open>STATE:WRONG\<close> sets it to \<open>WRONG\<close>, and both clear the entered string.
\<close>

theorem state_unlocked_wrong_clear:
  "handleLine ''STATE:UNLOCKED'' st = st\<lparr>lockState := UNLOCKED, entered := ''''\<rparr>
   \<and> handleLine ''STATE:WRONG'' st = st\<lparr>lockState := WRONG, entered := ''''\<rparr>"
  by (simp add: handleLine_def startsWith_def trim_def isWhiteSpace_def toUpperCase_def upperChar_def)

text \<open>
  Claim C6. Whatever the state, \<open>STATE:IDLE\<close> sets the lock state to \<open>LOCKED\<close> and
  leaves the entered string as it was.
\<close>

theorem state_idle_keeps_entered:
  "handleLine ''STATE:IDLE'' st = st\<lparr>lockState := LOCKED\<rparr>
   \<and> lockState (handleLine ''STATE:IDLE'' st) = LOCKED
   \<and> entered (handleLine ''STATE:IDLE'' st) = entered st"
  by (simp add: handleLine_def startsWith_def trim_def isWhiteSpace_def toUpperCase_def upperChar_def)

lemma upperChar_white: "isWhiteSpace (upperChar c) = isWhiteSpace c"
  by (simp add: upperChar_def isWhiteSpace_def split: option.splits if_splits)

lemma upperChar_idem: "upperChar (upperChar c) = upperChar c"
  by (simp add: upperChar_def split: option.splits if_splits)

lemma toUpperCase_idem: "toUpperCase (toUpperCase s) = toUpperCase s"
  by (simp add: toUpperCase_def upperChar_idem)

lemma dropWhile_white_upper:
  "dropWhile isWhiteSpace (map upperChar s) = map upperChar (dropWhile isWhiteSpace s)"
  by (induction s) (simp_all add: upperChar_white)

lemma trim_toUpperCase: "trim (toUpperCase s) = toUpperCase (trim s)"
  by (simp add: trim_def toUpperCase_def dropWhile_white_upper rev_map)

lemma handleLine_STATE_upper:
  "handleLine (''STATE:'' @ toUpperCase p) st = handleLine (''STATE:'' @ p) st"
proof -
  have "toUpperCase (trim (drop 6 (''STATE:'' @ toUpperCase p)))
      = toUpperCase (trim (drop 6 (''STATE:'' @ p)))"
    by (simp add: trim_toUpperCase toUpperCase_idem)
  then show ?thesis
    by (simp only: handleLine_STATE [OF startsWith_STATE])
qed

text \<open>
  Claim C8. The payload of a \<open>STATE:\<close> line is matched without regard to case: a line
  whose payload is any spelling of \<open>UNLOCKED\<close>, \<open>WRONG\<close> or \<open>IDLE\<close> in upper and lower
  case letters has the effect of the line with the upper case spelling; and
  \<open>STATE:wrong\<close> sets the lock state to \<open>WRONG\<close>.
\<close>

theorem state_payload_case_insensitive:
  "(toUpperCase p \<in> {''UNLOCKED'', ''WRONG'', ''IDLE''} \<longrightarrow>
      handleLine (''STATE:'' @ p) st = handleLine (''STATE:'' @ toUpperCase p) st)
   \<and> lockState (handleLine ''STATE:wrong'' st) = WRONG"
proof (intro conjI impI)
  show "handleLine (''STATE:'' @ p) st = handleLine (''STATE:'' @ toUpperCase p) st"
    by (simp only: handleLine_STATE_upper)
next
  show "lockState (handleLine ''STATE:wrong'' st) = WRONG"
    by (simp add: handleLine_def startsWith_def trim_def isWhiteSpace_def toUpperCase_def
        upperChar_def)
qed

theorem state_payload_case_insensitive_witness:
  "toUpperCase ''uNlOcKeD'' \<in> {''UNLOCKED'', ''WRONG'', ''IDLE''}
   \<and> handleLine ''STATE:uNlOcKeD'' \<lparr>lockState = WRONG, entered = ''12''\<rparr>
       = handleLine ''STATE:UNLOCKED'' \<lparr>lockState = WRONG, entered = ''12''\<rparr>
   \<and> handleLine ''STATE:uNlOcKeD'' \<lparr>lockState = WRONG, entered = ''12''\<rparr>
       = \<lparr>lockState = UNLOCKED, entered = ''''\<rparr>"
proof -
  have up: "toUpperCase ''uNlOcKeD'' = ''UNLOCKED''"
    by (simp add: toUpperCase_def upperChar_def)
  have "handleLine ''STATE:UNLOCKED'' \<lparr>lockState = WRONG, entered = ''12''\<rparr>
      = \<lparr>lockState = UNLOCKED, entered = ''''\<rparr>"
    by (simp add: handleLine_def startsWith_def trim_def isWhiteSpace_def toUpperCase_def
        upperChar_def)
  then show ?thesis
    using state_payload_case_insensitive [of "''uNlOcKeD''" "\<lparr>lockState = WRONG, entered = ''12''\<rparr>"]
    by (simp add: up)
qed

section \<open>Frames and ignored lines\<close>

text \<open>
  Claim C10. A line that starts with \<open>KEY:\<close> never changes the lock state, and a line
  that starts with \<open>STATE:\<close> never makes the entered string longer: it clears it or
  leaves it as it was.
\<close>

theorem key_state_frames:
  "(startsWith line ''KEY:'' \<longrightarrow> lockState (handleLine line st) = lockState st)
   \<and> (startsWith line ''STATE:'' \<longrightarrow>
        length (entered (handleLine line st)) \<le> length (entered st)
        \<and> (entered (handleLine line st) = [] \<or> entered (handleLine line st) = entered st))"
proof (intro conjI impI)
  assume "startsWith line ''KEY:''"
  then show "lockState (handleLine line st) = lockState st"
    by (simp add: handleLine_KEY)
next
  assume s: "startsWith line ''STATE:''"
  show "length (entered (handleLine line st)) \<le> length (entered st)"
    by (simp add: handleLine_STATE [OF s])
  show "entered (handleLine line st) = [] \<or> entered (handleLine line st) = entered st"
    by (simp add: handleLine_STATE [OF s])
qed

theorem key_state_frames_witness:
  "startsWith ''KEY:12'' ''KEY:''
   \<and> lockState (handleLine ''KEY:12'' \<lparr>lockState = WRONG, entered = ''7''\<rparr>) = WRONG
   \<and> startsWith ''STATE:Unlocked'' ''STATE:''
   \<and> entered (handleLine ''STATE:Unlocked'' \<lparr>lockState = WRONG, entered = ''7''\<rparr>) = []"
proof -
  have "entered (handleLine ''STATE:Unlocked'' \<lparr>lockState = WRONG, entered = ''7''\<rparr>) = []"
    by (simp add: handleLine_def startsWith_def trim_def isWhiteSpace_def toUpperCase_def
        upperChar_def)
  then show ?thesis
    using key_state_frames [of "''KEY:12''" "\<lparr>lockState = WRONG, entered = ''7''\<rparr>"]
      key_state_frames [of "''STATE:Unlocked''" "\<lparr>lockState = WRONG, entered = ''7''\<rparr>"]
    by (simp add: startsWith_def)
qed

text \<open>
  Claim C7. A line with neither prefix, a \<open>KEY:\<close> line whose payload is neither a decimal
  digit nor \<open>*\<close>, and a \<open>STATE:\<close> line whose upper-cased payload is none of \<open>UNLOCKED\<close>,
  \<open>WRONG\<close>, \<open>IDLE\<close>, change neither the lock state nor the entered string.

  Read to the letter, this fails twice. \<open>handleLine\<close> trims the payload before it looks
  at it, so \<open>STATE: IDLE\<close>, whose payload is \<open>IDLE\<close> after a space, locks. And the
  payload \<open>12\<close> of \<open>KEY:12\<close>, which is no digit, passes the test
  \<open>k >= "0" && k <= "9"\<close>, a comparison of strings, and is appended.
\<close>

theorem unrecognized_counterexample:
  "startsWith ''KEY:12'' ''KEY:''
   \<and> \<not> (length (drop 4 ''KEY:12'') = 1 \<and> decimalDigit (hd (drop 4 ''KEY:12'')))
   \<and> drop 4 ''KEY:12'' \<noteq> ''*''
   \<and> handleLine ''KEY:12'' \<lparr>lockState = LOCKED, entered = ''''\<rparr>
        \<noteq> \<lparr>lockState = LOCKED, entered = ''''\<rparr>
   \<and> entered (handleLine ''KEY:12'' \<lparr>lockState = LOCKED, entered = ''''\<rparr>) = ''12''
   \<and> startsWith ''STATE: IDLE'' ''STATE:''
   \<and> toUpperCase (drop 6 ''STATE: IDLE'') \<notin> {''UNLOCKED'', ''WRONG'', ''IDLE''}
   \<and> handleLine ''STATE: IDLE'' \<lparr>lockState = WRONG, entered = ''''\<rparr>
        \<noteq> \<lparr>lockState = WRONG, entered = ''''\<rparr>
   \<and> lockState (handleLine ''STATE: IDLE'' \<lparr>lockState = WRONG, entered = ''''\<rparr>) = LOCKED"
  by (simp add: handleLine_def startsWith_def trim_def isWhiteSpace_def toUpperCase_def
      upperChar_def)

text \<open>
  Claim C7, amended. A line with neither prefix, a \<open>KEY:\<close> line whose trimmed payload is
  not \<open>*\<close> and does not begin with a decimal digit, and a \<open>STATE:\<close> line whose trimmed,
  upper-cased payload is none of \<open>UNLOCKED\<close>, \<open>WRONG\<close>, \<open>IDLE\<close>, change nothing.
\<close>

theorem unrecognized_ignored:
  "(\<not> startsWith line ''KEY:'' \<and> \<not> startsWith line ''STATE:'' \<longrightarrow> handleLine line st = st)
   \<and> (startsWith line ''KEY:'' \<and> trim (drop 4 line) \<noteq> ''*''
        \<and> \<not> (trim (drop 4 line) \<noteq> [] \<and> decimalDigit (hd (trim (drop 4 line))))
        \<longrightarrow> handleLine line st = st)
   \<and> (startsWith line ''STATE:''
        \<and> toUpperCase (trim (drop 6 line)) \<notin> {''UNLOCKED'', ''WRONG'', ''IDLE''}
        \<longrightarrow> handleLine line st = st)"
proof (intro conjI impI)
  assume "\<not> startsWith line ''KEY:'' \<and> \<not> startsWith line ''STATE:''"
  then show "handleLine line st = st"
    by (simp add: handleLine_other)
next
  assume a: "startsWith line ''KEY:'' \<and> trim (drop 4 line) \<noteq> ''*''
        \<and> \<not> (trim (drop 4 line) \<noteq> [] \<and> decimalDigit (hd (trim (drop 4 line))))"
  then have key: "startsWith line ''KEY:''" and star: "trim (drop 4 line) \<noteq> ''*''"
    by simp_all
  have "\<not> (''0'' \<le> trim (drop 4 line) \<and> trim (drop 4 line) \<le> ''9''
      \<and> length (entered st) < 4)"
    using a range_decimalDigit [of "trim (drop 4 line)"] by blast
  then have "handleLine line st =
      (if trim (drop 4 line) = ''*'' \<and> entered st \<noteq> []
       then st\<lparr>entered := butlast (entered st)\<rparr> else st)"
    by (simp only: handleLine_KEY [OF key] if_False)
  with star show "handleLine line st = st"
    by simp
next
  assume a: "startsWith line ''STATE:''
        \<and> toUpperCase (trim (drop 6 line)) \<notin> {''UNLOCKED'', ''WRONG'', ''IDLE''}"
  then show "handleLine line st = st"
    by (simp add: handleLine_STATE)
qed

theorem unrecognized_ignored_witness:
  "\<not> startsWith ''PING'' ''KEY:'' \<and> \<not> startsWith ''PING'' ''STATE:''
   \<and> handleLine ''PING'' \<lparr>lockState = WRONG, entered = ''12''\<rparr>
       = \<lparr>lockState = WRONG, entered = ''12''\<rparr>
   \<and> startsWith ''KEY:#'' ''KEY:'' \<and> trim (drop 4 ''KEY:#'') = ''#''
   \<and> handleLine ''KEY:#'' \<lparr>lockState = WRONG, entered = ''12''\<rparr>
       = \<lparr>lockState = WRONG, entered = ''12''\<rparr>
   \<and> startsWith ''STATE:OPEN'' ''STATE:'' \<and> toUpperCase (trim (drop 6 ''STATE:OPEN'')) = ''OPEN''
   \<and> handleLine ''STATE:OPEN'' \<lparr>lockState = WRONG, entered = ''12''\<rparr>
       = \<lparr>lockState = WRONG, entered = ''12''\<rparr>"
proof -
  have 1: "\<not> startsWith ''PING'' ''KEY:'' \<and> \<not> startsWith ''PING'' ''STATE:''"
    by (simp add: startsWith_def)
  have 2: "startsWith ''KEY:#'' ''KEY:'' \<and> trim (drop 4 ''KEY:#'') = ''#''"
    by (simp add: startsWith_def trim_def isWhiteSpace_def)
  have 3: "startsWith ''STATE:OPEN'' ''STATE:'' \<and> toUpperCase (trim (drop 6 ''STATE:OPEN'')) = ''OPEN''"
    by (simp add: startsWith_def trim_def isWhiteSpace_def toUpperCase_def upperChar_def)
  have d: "\<not> decimalDigit CHR ''#''"
    by (simp add: decimalDigit_def)
  show ?thesis
    using unrecognized_ignored [of "''PING''" "\<lparr>lockState = WRONG, entered = ''12''\<rparr>"]
      unrecognized_ignored [of "''KEY:#''" "\<lparr>lockState = WRONG, entered = ''12''\<rparr>"]
      unrecognized_ignored [of "''STATE:OPEN''" "\<lparr>lockState = WRONG, entered = ''12''\<rparr>"]
      1 2 3 d
    by simp
qed

section \<open>The read loop forwards the lines\<close>

lemma indexOf_ge_minus1: "- 1 \<le> indexOf s c"
  by (induction s) (auto simp: Let_def)

lemma indexOf_Cons_found:
  "x \<noteq> c \<Longrightarrow> 0 \<le> indexOf xs c \<Longrightarrow> indexOf (x # xs) c = indexOf xs c + 1"
  by (simp add: Let_def)

lemma indexOf_Cons_pos: "x \<noteq> c \<Longrightarrow> 0 \<le> indexOf (x # xs) c \<Longrightarrow> 0 \<le> indexOf xs c"
  by (simp add: Let_def split: if_splits)

lemma indexOf_neg_iff: "indexOf s c < 0 \<longleftrightarrow> c \<notin> set s"
proof (induction s)
  case Nil
  then show ?case by simp
next
  case (Cons x xs)
  then show ?case
    using indexOf_ge_minus1 [of xs c] by (auto simp: Let_def)
qed

lemma indexOf_append: "0 \<le> indexOf a c \<Longrightarrow> indexOf (a @ b) c = indexOf a c"
proof (induction a)
  case Nil
  then show ?case by simp
next
  case (Cons x xs)
  show ?case
  proof (cases "x = c")
    case True
    then show ?thesis by simp
  next
    case False
    then have pos: "0 \<le> indexOf xs c"
      using Cons.prems by (rule indexOf_Cons_pos)
    then have "0 \<le> indexOf (xs @ b) c"
      using Cons.IH by simp
    with False have "indexOf (x # (xs @ b)) c = indexOf (xs @ b) c + 1"
      by (rule indexOf_Cons_found)
    also have "\<dots> = indexOf xs c + 1"
      using pos Cons.IH by simp
    also have "\<dots> = indexOf (x # xs) c"
      using False pos by (rule indexOf_Cons_found [symmetric])
    finally show ?thesis
      by simp
  qed
qed

lemma segments_not_Nil [simp]: "segments s \<noteq> []"
  by (induction s) auto

text \<open>
  \<^const>\<open>segments\<close> is the cut at the newlines: no segment holds a newline, and the
  segments, joined by newlines, are the string.
\<close>

lemma segments_newline_free: "seg \<in> set (segments s) \<Longrightarrow> newline \<notin> set seg"
proof (induction s arbitrary: seg)
  case Nil
  then show ?case by simp
next
  case (Cons c cs)
  obtain u us where S: "segments cs = u # us"
    by (cases "segments cs") simp_all
  with Cons show ?case
    by (auto split: if_splits)
qed

lemma segments_join:
  "concat (map (\<lambda>seg. seg @ [newline]) (butlast (segments s))) @ last (segments s) = s"
proof (induction s)
  case Nil
  then show ?case by simp
next
  case (Cons c cs)
  obtain u us where S: "segments cs = u # us"
    by (cases "segments cs") simp_all
  with Cons show ?case
    by (auto split: if_splits)
qed

lemma segments_no_newline: "newline \<notin> set s \<Longrightarrow> segments s = [s]"
  by (induction s) auto

lemma segments_at_newline:
  "0 \<le> indexOf s newline \<Longrightarrow>
   segments s = take (nat (indexOf s newline)) s # segments (drop (nat (indexOf s newline + 1)) s)"
proof (induction s)
  case Nil
  then show ?case by simp
next
  case (Cons x xs)
  show ?case
  proof (cases "x = newline")
    case True
    then show ?thesis by simp
  next
    case False
    then have pos: "0 \<le> indexOf xs newline"
      using Cons.prems by (rule indexOf_Cons_pos)
    with False have idx: "indexOf (x # xs) newline = indexOf xs newline + 1"
      by (rule indexOf_Cons_found)
    have n1: "nat (indexOf xs newline + 1) = Suc (nat (indexOf xs newline))"
      and n2: "nat (indexOf xs newline + 1 + 1) = Suc (Suc (nat (indexOf xs newline)))"
      using pos by simp_all
    have "segments (x # xs) = (x # hd (segments xs)) # tl (segments xs)"
      using False by simp
    also have "\<dots> = (x # take (nat (indexOf xs newline)) xs)
        # segments (drop (nat (indexOf xs newline + 1)) xs)"
      by (subst (1 2) Cons.IH [OF pos]) simp
    also have "\<dots> = take (nat (indexOf (x # xs) newline)) (x # xs)
        # segments (drop (nat (indexOf (x # xs) newline + 1)) (x # xs))"
      by (simp only: idx n1 n2 take_Suc_Cons drop_Suc_Cons)
    finally show ?thesis .
  qed
qed

lemma last_segments_no_newline: "newline \<notin> set (last (segments s))"
proof (induction s)
  case Nil
  then show ?case by simp
next
  case (Cons c cs)
  obtain u us where S: "segments cs = u # us"
    by (cases "segments cs") simp_all
  with Cons show ?case
    by (auto split: if_splits)
qed

lemma drain_no_newline: "indexOf buf newline < 0 \<Longrightarrow> drain h buf st = (buf, st)"
  by (subst drain.simps) simp

lemma drain_newline:
  "0 \<le> indexOf buf newline \<Longrightarrow>
   drain h buf st =
     drain h (drop (nat (indexOf buf newline + 1)) buf)
       (if trim (take (nat (indexOf buf newline)) buf) \<noteq> []
        then h (trim (take (nat (indexOf buf newline)) buf)) st else st)"
  by (subst drain.simps) (simp add: Let_def)

lemma drain_spec: "drain h s st = (buffered_spec s, fold h (forwarded_spec s) st)"
proof (induction h s st rule: drain.induct)
  case (1 h buf st)
  show ?case
  proof (cases "0 \<le> indexOf buf newline")
    case True
    let ?line = "trim (take (nat (indexOf buf newline)) buf)"
    let ?buf' = "drop (nat (indexOf buf newline + 1)) buf"
    let ?st' = "if ?line \<noteq> [] then h ?line st else st"
    have seg: "segments buf = take (nat (indexOf buf newline)) buf # segments ?buf'"
      using True by (rule segments_at_newline)
    have "drain h buf st = drain h ?buf' ?st'"
      using True by (rule drain_newline)
    also have "\<dots> = (buffered_spec ?buf', fold h (forwarded_spec ?buf') ?st')"
      using True by (rule "1.IH" [OF refl _ refl refl])
    also have "buffered_spec ?buf' = buffered_spec buf"
      by (simp add: buffered_spec_def seg)
    also have "fold h (forwarded_spec ?buf') ?st' = fold h (forwarded_spec buf) st"
      by (simp add: forwarded_spec_def seg)
    finally show ?thesis .
  next
    case False
    then have neg: "indexOf buf newline < 0"
      by simp
    then have "segments buf = [buf]"
      by (simp add: indexOf_neg_iff segments_no_newline)
    then show ?thesis
      by (simp add: drain_no_newline [OF neg] buffered_spec_def forwarded_spec_def)
  qed
qed

lemma drain_append:
  "drain h (a @ b) st = (case drain h a st of (a', st') \<Rightarrow> drain h (a' @ b) st')"
proof (induction h a st rule: drain.induct)
  case (1 h buf st)
  show ?case
  proof (cases "0 \<le> indexOf buf newline")
    case True
    let ?n = "nat (indexOf buf newline)"
    let ?line = "trim (take ?n buf)"
    let ?buf' = "drop (nat (indexOf buf newline + 1)) buf"
    let ?st' = "if ?line \<noteq> [] then h ?line st else st"
    have idx: "indexOf (buf @ b) newline = indexOf buf newline"
      using True by (rule indexOf_append)
    have len: "indexOf buf newline < int (length buf)"
      by (rule indexOf_less_length)
    have tk: "take ?n (buf @ b) = take ?n buf"
      using True len by simp
    have dr: "drop (nat (indexOf buf newline + 1)) (buf @ b) = ?buf' @ b"
      using True len by simp
    have "drain h (buf @ b) st = drain h (?buf' @ b) ?st'"
      using True drain_newline [of "buf @ b" h st] by (simp only: idx tk dr)
    also have "\<dots> = (case drain h ?buf' ?st' of (a', st') \<Rightarrow> drain h (a' @ b) st')"
      using True by (rule "1.IH" [OF refl _ refl refl])
    also have "drain h ?buf' ?st' = drain h buf st"
      using True by (rule drain_newline [symmetric])
    finally show ?thesis .
  next
    case False
    then have "drain h buf st = (buf, st)"
      by (simp add: drain_no_newline)
    then show ?thesis
      by simp
  qed
qed

lemma fst_drain_no_newline: "newline \<notin> set (fst (drain h s st))"
  by (simp add: drain_spec buffered_spec_def last_segments_no_newline)

lemma readLoop_drain:
  "newline \<notin> set buf \<Longrightarrow> readLoop h chunks buf st = drain h (buf @ concat chunks) st"
proof (induction chunks arbitrary: buf st)
  case Nil
  then show ?case
    by (simp add: drain_no_newline indexOf_neg_iff)
next
  case (Cons v vs)
  show ?case
  proof (cases "v = []")
    case True
    with Cons show ?thesis by simp
  next
    case False
    obtain buf' st' where d: "drain h (buf @ v) st = (buf', st')"
      by (cases "drain h (buf @ v) st")
    then have "newline \<notin> set buf'"
      using fst_drain_no_newline [of h "buf @ v" st] by simp
    then have "readLoop h vs buf' st' = drain h (buf' @ concat vs) st'"
      by (rule Cons.IH)
    moreover have "drain h ((buf @ v) @ concat vs) st = drain h (buf' @ concat vs) st'"
      by (simp only: drain_append [of h "buf @ v"] d prod.case)
    ultimately show ?thesis
      using False d by simp
  qed
qed

text \<open>
  Claim C9. For every finite sequence of chunks, the read loop forwards to the line
  interpreter exactly the trimmed, non-empty segments that precede a newline in the
  concatenation of the chunks, in their order, and what follows the last newline stays in
  the buffer and is not forwarded. The first part of the theorem is about any handler and
  any state it acts on; the second takes the handler that records the lines it is called
  with.
\<close>

theorem readLoop_forwards:
  "readLoop h chunks [] st
     = (buffered_spec (concat chunks), fold h (forwarded_spec (concat chunks)) st)
   \<and> snd (readLoop (\<lambda>line calls. calls @ [line]) chunks [] [])
     = forwarded_spec (concat chunks)"
proof
  show "readLoop h chunks [] st
     = (buffered_spec (concat chunks), fold h (forwarded_spec (concat chunks)) st)"
    by (simp add: readLoop_drain drain_spec)
  have "fold (\<lambda>line calls. calls @ [line]) ls acc = acc @ ls" for ls acc :: "string list"
    by (induction ls arbitrary: acc) simp_all
  then show "snd (readLoop (\<lambda>line calls. calls @ [line]) chunks [] [])
     = forwarded_spec (concat chunks)"
    by (simp add: readLoop_drain drain_spec)
qed

section \<open>The bound on the entered string\<close>

text \<open>
  As long as every \<open>KEY:\<close> payload is, once trimmed, at most one character long, a line
  leaves the entered string no longer than four characters.
\<close>

lemma entered_cap_single_payload:
  assumes "length (entered st) \<le> 4"
    and "startsWith line ''KEY:'' \<Longrightarrow> length (trim (drop 4 line)) \<le> 1"
  shows "length (entered (handleLine line st)) \<le> 4"
proof (cases "startsWith line ''KEY:''")
  case True
  with assms show ?thesis
    by (auto simp: handleLine_KEY)
next
  case False
  with assms(1) show ?thesis
    by (cases "startsWith line ''STATE:''") (auto simp: handleLine_STATE handleLine_other)
qed

text \<open>
  Claim C1. Starting from the empty buffer, no interpreted line makes the entered string
  longer than four characters. The sketch does not keep this bound: the test
  \<open>k >= "0" && k <= "9"\<close> compares strings, so a payload of several characters that
  begins with a digit below \<open>9\<close> passes it, and the whole payload is appended. The
  theorem runs \<open>handleLine\<close> on the line \<open>KEY:12345\<close> in the initial state, and the
  read loop on the chunk that holds this line and its newline.
\<close>

theorem entered_cap_broken:
  "length (entered initial) \<le> 4
   \<and> handleLine ''KEY:12345'' initial = \<lparr>lockState = LOCKED, entered = ''12345''\<rparr>
   \<and> length (entered (handleLine ''KEY:12345'' initial)) = 5
   \<and> readLoop handleLine [''KEY:12345'' @ [newline]] [] initial
        = ('''', \<lparr>lockState = LOCKED, entered = ''12345''\<rparr>)"
proof -
  have line: "handleLine ''KEY:12345'' initial = \<lparr>lockState = LOCKED, entered = ''12345''\<rparr>"
    by (simp add: handleLine_def startsWith_def trim_def isWhiteSpace_def initial_def)
  have "forwarded_spec (''KEY:12345'' @ [newline]) = [''KEY:12345'']"
    and "buffered_spec (''KEY:12345'' @ [newline]) = ''''"
    by (simp_all add: forwarded_spec_def buffered_spec_def newline_def trim_def isWhiteSpace_def)
  then have "readLoop handleLine [''KEY:12345'' @ [newline]] [] initial
      = ('''', \<lparr>lockState = LOCKED, entered = ''12345''\<rparr>)"
    using readLoop_drain [of "[]" handleLine "[''KEY:12345'' @ [newline]]" initial]
    by (simp add: drain_spec line)
  with line show ?thesis
    by (simp add: initial_def)
qed

end
